theory Spec2Isabelle
  imports Main "HOL-Library.Sublist"
begin

section \<open>Strings of the wrapper\<close>

text \<open>
  The module \<^verbatim>\<open>konlpy/tag/_mecab.py\<close> works on Python 3 text: a \<^verbatim>\<open>str\<close> is a
  sequence of Unicode code points. A code point is a natural number here, so that the
  line boundaries and the white space that Python recognises beyond ASCII (U+0085,
  U+2028, ...) and the Hangul of the tagger's dictionary are all values of the type.
  The branch of \<^verbatim>\<open>Mecab.pos\<close> under \<^verbatim>\<open>sys.version_info[0] < 3\<close> is not
  modelled: the module's \<^verbatim>\<open>def split(...) -> []\<close> is Python 3 syntax.
\<close>

type_synonym codepoint = nat
type_synonym str = "codepoint list"

definition ustr :: "string \<Rightarrow> str" where
  "ustr s = map of_char s"

definition TAB :: codepoint where "TAB = 9"
definition COMMA :: codepoint where "COMMA = 44"
definition PLUS :: codepoint where "PLUS = 43"
definition SLASH :: codepoint where "SLASH = 47"

text \<open>\<^verbatim>\<open>str.split(sep)\<close> for a one-character separator: every occurrence of the
  separator ends a field, so the result is never empty and \<^verbatim>\<open>''.split(',')\<close> is
  \<^verbatim>\<open>['']\<close>. A character other than the separator joins the first field of the
  rest; the rest always has one.\<close>

fun split_on :: "codepoint \<Rightarrow> str \<Rightarrow> str list" where
  "split_on sep [] = [[]]"
| "split_on sep (c # cs) =
     (if c = sep then [] # split_on sep cs
      else (case split_on sep cs of
              [] \<Rightarrow> [[c]]
            | l # ls \<Rightarrow> (c # l) # ls))"

text \<open>\<^verbatim>\<open>str.split(sep, 1)\<close>: at most one split, at the first separator.\<close>

definition split1 :: "codepoint \<Rightarrow> str \<Rightarrow> str list" where
  "split1 sep xs =
     (if sep \<in> set xs
      then [takeWhile (\<lambda>c. c \<noteq> sep) xs, tl (dropWhile (\<lambda>c. c \<noteq> sep) xs)]
      else [xs])"

text \<open>The line boundaries of \<^verbatim>\<open>str.splitlines()\<close>: LF, VT, FF, CR, FS, GS, RS, NEL,
  LS and PS; CR followed by LF is one boundary. A boundary ends a line, so a final
  boundary opens no further line and \<^verbatim>\<open>''.splitlines()\<close> is \<^verbatim>\<open>[]\<close>.\<close>

definition is_linebreak :: "codepoint \<Rightarrow> bool" where
  "is_linebreak c \<longleftrightarrow> c \<in> {10, 11, 12, 13, 28, 29, 30, 133, 8232, 8233}"

fun splitlines :: "str \<Rightarrow> str list" where
  "splitlines [] = []"
| "splitlines (c # cs) =
     (if is_linebreak c then
        (case cs of
           d # ds \<Rightarrow> if c = 13 \<and> d = 10 then [] # splitlines ds else [] # splitlines cs
         | [] \<Rightarrow> [[]])
      else (case splitlines cs of
              [] \<Rightarrow> [[c]]
            | l # ls \<Rightarrow> (c # l) # ls))"

text \<open>The white space of \<^verbatim>\<open>str.split()\<close> (no argument): the code points for which
  \<^verbatim>\<open>str.isspace\<close> holds. Runs of white space separate the words, and no word is
  empty.\<close>

definition is_space :: "codepoint \<Rightarrow> bool" where
  "is_space c \<longleftrightarrow>
     (9 \<le> c \<and> c \<le> 13) \<or> (28 \<le> c \<and> c \<le> 32) \<or> c = 133 \<or> c = 160 \<or> c = 5760 \<or>
     (8192 \<le> c \<and> c \<le> 8202) \<or> c = 8232 \<or> c = 8233 \<or> c = 8239 \<or> c = 8287 \<or> c = 12288"

function split_ws :: "str \<Rightarrow> str list" where
  "split_ws s =
     (let s' = dropWhile is_space s in
      if s' = [] then []
      else takeWhile (\<lambda>c. \<not> is_space c) s' # split_ws (dropWhile (\<lambda>c. \<not> is_space c) s'))"
  by pat_completeness auto
termination
proof (relation "measure length")
  show "wf (measure length)" by simp
next
  fix s s' :: str
  assume s': "s' = dropWhile is_space s" and ne: "s' \<noteq> []"
  have "\<not> is_space (hd s')"
    using s' ne hd_dropWhile by metis
  then have "dropWhile (\<lambda>c. \<not> is_space c) s' = dropWhile (\<lambda>c. \<not> is_space c) (tl s')"
    using ne by (cases s') simp_all
  then have "length (dropWhile (\<lambda>c. \<not> is_space c) s') \<le> length (tl s')"
    by (metis length_dropWhile_le)
  also have "\<dots> < length s'"
    using ne by (cases s') simp_all
  also have "\<dots> \<le> length s"
    unfolding s' by (rule length_dropWhile_le)
  finally show "(dropWhile (\<lambda>c. \<not> is_space c) s', s) \<in> measure length"
    by simp
qed

declare split_ws.simps [simp del]

text \<open>\<^verbatim>\<open>str.startswith(prefix)\<close>.\<close>

definition startswith :: "str \<Rightarrow> str \<Rightarrow> bool" where
  "startswith s p \<longleftrightarrow> take (length p) s = p"

section \<open>Errors and indexing\<close>

text \<open>The exceptions the module can raise. \<^verbatim>\<open>xs[i]\<close> with a non-negative constant
  index raises \<^verbatim>\<open>IndexError\<close> outside the list.\<close>

datatype error =
    IndexError
  | ValueError
  | ValidationError
  | RuntimeError
  | Exception str

definition index :: "'a list \<Rightarrow> nat \<Rightarrow> error + 'a" where
  "index xs i = (if i < length xs then Inr (xs ! i) else Inl IndexError)"

section \<open>The formatter: \<^verbatim>\<open>parse\<close> and its inner \<^verbatim>\<open>split\<close>\<close>

text \<open>An element of the formatter's output is a pair \<^verbatim>\<open>(surface, tag)\<close> or, under
  \<^verbatim>\<open>join\<close>, the string \<^verbatim>\<open>surface + '/' + tag\<close>.\<close>

datatype token = Pair str str | Joined str

definition placeholder :: token where
  "placeholder = Pair [] (ustr ''SY'')"

text \<open>The loop \<^verbatim>\<open>for token in tokens\<close> of the inflected branch, with its
  accumulator \<^verbatim>\<open>res\<close>. \<^verbatim>\<open>token[0]\<close> is read before \<^verbatim>\<open>token[1]\<close>.\<close>

fun expand :: "token list \<Rightarrow> str list list \<Rightarrow> bool \<Rightarrow> error + token list" where
  "expand res [] join = Inr res"
| "expand res (token # tokens) join =
     (case index token 0 of
        Inl e \<Rightarrow> Inl e
      | Inr a \<Rightarrow>
         (case index token 1 of
            Inl e \<Rightarrow> Inl e
          | Inr b \<Rightarrow>
             expand (res @ [if join then Joined (a @ [SLASH] @ b) else Pair a b]) tokens join))"

definition split :: "str \<Rightarrow> bool \<Rightarrow> bool \<Rightarrow> error + token list" where
  "split elem join split_inflect =
     (if elem = [] then Inr [placeholder]
      else
        let segments = split1 TAB elem in
        if length segments \<noteq> 2 then Inr [placeholder]
        else
          let s = segments ! 0;
              t = segments ! 1;
              features = split_on COMMA t
          in
          (case (if split_inflect
                 then (case index features 4 of
                         Inl e \<Rightarrow> Inl e
                       | Inr ty \<Rightarrow> Inr (ty = ustr ''Inflect''))
                 else Inr False) of
             Inl e \<Rightarrow> Inl e
           | Inr True \<Rightarrow>
               (case index features 7 of
                  Inl e \<Rightarrow> Inl e
                | Inr original \<Rightarrow>
                    expand [] (map (split_on SLASH) (split_on PLUS original)) join)
           | Inr False \<Rightarrow>
               (case index features 0 of
                  Inl e \<Rightarrow> Inl e
                | Inr tag \<Rightarrow>
                    if join then Inr [Joined (s @ [SLASH] @ tag)] else Inr [Pair s tag])))"

text \<open>The two loops of \<^verbatim>\<open>parse\<close> over the lines: under \<^verbatim>\<open>split_inflect\<close> every
  line's tokens are appended (\<^verbatim>\<open>res.extend(morphs)\<close>); otherwise the comprehension
  keeps element 0 of each line's list, \<^verbatim>\<open>split\<close> being called with its default
  \<^verbatim>\<open>split_inflect=False\<close>.\<close>

fun extend_lines :: "token list \<Rightarrow> str list \<Rightarrow> bool \<Rightarrow> bool \<Rightarrow> error + token list" where
  "extend_lines res [] join split_inflect = Inr res"
| "extend_lines res (elem # elems) join split_inflect =
     (case split elem join split_inflect of
        Inl e \<Rightarrow> Inl e
      | Inr morphs \<Rightarrow> extend_lines (res @ morphs) elems join split_inflect)"

fun first_of_lines :: "str list \<Rightarrow> bool \<Rightarrow> error + token list" where
  "first_of_lines [] join = Inr []"
| "first_of_lines (elem # elems) join =
     (case split elem join False of
        Inl e \<Rightarrow> Inl e
      | Inr morphs \<Rightarrow>
         (case index morphs 0 of
            Inl e \<Rightarrow> Inl e
          | Inr m \<Rightarrow>
             (case first_of_lines elems join of
                Inl e \<Rightarrow> Inl e
              | Inr ms \<Rightarrow> Inr (m # ms))))"

text \<open>\<^verbatim>\<open>parse(result, allattrs, join, split_inflect)\<close>; the parameter
  \<^verbatim>\<open>allattrs\<close> is never read. \<^verbatim>\<open>result.splitlines()[:-1]\<close> leaves out the last
  line, the tagger's terminator \<^verbatim>\<open>EOS\<close>.\<close>

definition parse_lines :: "str list \<Rightarrow> bool \<Rightarrow> bool \<Rightarrow> error + token list" where
  "parse_lines elems join split_inflect =
     (if split_inflect then extend_lines [] elems join split_inflect
      else first_of_lines elems join)"

definition parse :: "str \<Rightarrow> bool \<Rightarrow> bool \<Rightarrow> error + token list" where
  "parse result join split_inflect =
     parse_lines (butlast (splitlines result)) join split_inflect"

section \<open>The class \<^verbatim>\<open>Mecab\<close>\<close>

text \<open>The tagger of the external package \<^verbatim>\<open>mecab_ko\<close> is a parameter: the function
  \<^verbatim>\<open>self.tagger.parse\<close>, from a text to the tagger's dump of it.\<close>

type_synonym tagger = "str \<Rightarrow> str"

text \<open>What a caller can pass for \<^verbatim>\<open>phrase\<close>.\<close>

datatype pyarg = PyStr str | PyNone | PyInt int

text \<open>Modelled from the spec: \<^verbatim>\<open>validate_phrase_inputs\<close> of
  \<^verbatim>\<open>konlpy/tag/_common.py\<close> is missing from the sources at hand. The spec has it
  reject non-text input with a validation error before any processing; text passes.\<close>

definition validate_phrase_inputs :: "pyarg \<Rightarrow> error + str" where
  "validate_phrase_inputs phrase =
     (case phrase of PyStr x \<Rightarrow> Inr x | PyNone \<Rightarrow> Inl ValidationError | PyInt n \<Rightarrow> Inl ValidationError)"

text \<open>\<^verbatim>\<open>Mecab.pos\<close>. The flag \<^verbatim>\<open>flatten\<close> selects the shape of the result, so each
  of its two branches is a function of its own, and \<^verbatim>\<open>pos\<close> chooses between them.\<close>

definition pos_flat :: "tagger \<Rightarrow> pyarg \<Rightarrow> bool \<Rightarrow> bool \<Rightarrow> error + token list" where
  "pos_flat tagger phrase join split_inflect =
     (case validate_phrase_inputs phrase of
        Inl e \<Rightarrow> Inl e
      | Inr x \<Rightarrow> parse (tagger x) join split_inflect)"

fun parse_each :: "tagger \<Rightarrow> str list \<Rightarrow> bool \<Rightarrow> bool \<Rightarrow> error + token list list" where
  "parse_each tagger [] join split_inflect = Inr []"
| "parse_each tagger (eojeol # eojeols) join split_inflect =
     (case parse (tagger eojeol) join split_inflect of
        Inl e \<Rightarrow> Inl e
      | Inr r \<Rightarrow>
         (case parse_each tagger eojeols join split_inflect of
            Inl e \<Rightarrow> Inl e
          | Inr rs \<Rightarrow> Inr (r # rs)))"

definition pos_eojeols :: "tagger \<Rightarrow> pyarg \<Rightarrow> bool \<Rightarrow> bool \<Rightarrow> error + token list list" where
  "pos_eojeols tagger phrase join split_inflect =
     (case validate_phrase_inputs phrase of
        Inl e \<Rightarrow> Inl e
      | Inr x \<Rightarrow> parse_each tagger (split_ws x) join split_inflect)"

datatype pos_result = Flat "token list" | Eojeols "token list list"

definition pos :: "tagger \<Rightarrow> pyarg \<Rightarrow> bool \<Rightarrow> bool \<Rightarrow> bool \<Rightarrow> error + pos_result" where
  "pos tagger phrase flatten join split_inflect =
     (if flatten then
        (case pos_flat tagger phrase join split_inflect of
           Inl e \<Rightarrow> Inl e
         | Inr r \<Rightarrow> Inr (Flat r))
      else
        (case pos_eojeols tagger phrase join split_inflect of
           Inl e \<Rightarrow> Inl e
         | Inr r \<Rightarrow> Inr (Eojeols r)))"

text \<open>The target \<^verbatim>\<open>s, t\<close> of the comprehensions of \<^verbatim>\<open>morphs\<close> and \<^verbatim>\<open>nouns\<close>
  unpacks each element: a pair gives its components, a string of two characters gives
  its characters, any other string raises \<^verbatim>\<open>ValueError\<close>.\<close>

fun unpack :: "token \<Rightarrow> error + (str \<times> str)" where
  "unpack (Pair s t) = Inr (s, t)"
| "unpack (Joined j) = (if length j = 2 then Inr ([j ! 0], [j ! 1]) else Inl ValueError)"

fun surfaces :: "token list \<Rightarrow> error + str list" where
  "surfaces [] = Inr []"
| "surfaces (m # ms) =
     (case unpack m of
        Inl e \<Rightarrow> Inl e
      | Inr (s, t) \<Rightarrow>
         (case surfaces ms of
            Inl e \<Rightarrow> Inl e
          | Inr r \<Rightarrow> Inr (s # r)))"

fun noun_surfaces :: "token list \<Rightarrow> error + str list" where
  "noun_surfaces [] = Inr []"
| "noun_surfaces (m # ms) =
     (case unpack m of
        Inl e \<Rightarrow> Inl e
      | Inr (s, t) \<Rightarrow>
         (case noun_surfaces ms of
            Inl e \<Rightarrow> Inl e
          | Inr r \<Rightarrow> Inr (if startswith t (ustr ''N'') then s # r else r)))"

text \<open>\<^verbatim>\<open>Mecab.morphs\<close> and \<^verbatim>\<open>Mecab.nouns\<close> call \<^verbatim>\<open>self.pos(phrase)\<close> with its
  defaults: \<^verbatim>\<open>flatten=True\<close>, \<^verbatim>\<open>join=False\<close>, \<^verbatim>\<open>split_inflect=False\<close>.\<close>

definition morphs :: "tagger \<Rightarrow> pyarg \<Rightarrow> error + str list" where
  "morphs tagger phrase =
     (case pos_flat tagger phrase False False of
        Inl e \<Rightarrow> Inl e
      | Inr tagged \<Rightarrow> surfaces tagged)"

definition nouns :: "tagger \<Rightarrow> pyarg \<Rightarrow> error + str list" where
  "nouns tagger phrase =
     (case pos_flat tagger phrase False False of
        Inl e \<Rightarrow> Inl e
      | Inr tagged \<Rightarrow> noun_surfaces tagged)"

subsection \<open>Construction\<close>

text \<open>What \<^verbatim>\<open>Mecab.__init__\<close> takes from outside the module: the constructor
  \<^verbatim>\<open>Tagger\<close> of \<^verbatim>\<open>mecab_ko\<close>, called with an argument string or with none, which
  returns a tagger or raises; the path \<^verbatim>\<open>mecab_ko_dic.DICDIR\<close>; and
  \<^verbatim>\<open>utils.installpath\<close> and \<^verbatim>\<open>utils.read_json\<close> of \<^verbatim>\<open>konlpy/utils.py\<close>.\<close>

record 'ts env =
  Tagger :: "str option \<Rightarrow> error + tagger"
  DICDIR :: str
  installpath :: str
  read_json :: "str \<Rightarrow> error + 'ts"

record 'ts mecab =
  dicpath :: str
  tagger_of :: tagger
  tagset :: 'ts

text \<open>\<^verbatim>\<open>'%s' % v\<close> for \<^verbatim>\<open>v\<close> a string or \<^verbatim>\<open>None\<close>.\<close>

definition percent_s :: "str option \<Rightarrow> str" where
  "percent_s v = (case v of None \<Rightarrow> ustr ''None'' | Some p \<Rightarrow> p)"

definition message :: "str \<Rightarrow> str" where
  "message p =
     ustr ''The MeCab dictionary does not exist at '' @ [34] @ p @ [34] @
     ustr ''. Is the dictionary correctly installed?'' @ [10] @
     ustr ''You can also try entering the dictionary path when initializing the Mecab class: '' @
     [34] @ ustr ''Mecab('' @ [39] @ ustr ''/some/dic/path'' @ [39] @ ustr '')'' @ [34]"

text \<open>The body of the \<^verbatim>\<open>try\<close>. \<^verbatim>\<open>if dicpath\<close> is false for \<^verbatim>\<open>None\<close> and for
  the empty string.\<close>

definition init_body :: "'ts env \<Rightarrow> str option \<Rightarrow> error + 'ts mecab" where
  "init_body env dicpath_arg =
     (case (if dicpath_arg \<noteq> None \<and> dicpath_arg \<noteq> Some []
            then (case Tagger env (Some (ustr ''-d '' @ percent_s dicpath_arg)) of
                    Inl e \<Rightarrow> Inl e
                  | Inr tg \<Rightarrow> Inr (percent_s dicpath_arg, tg))
            else (case Tagger env None of
                    Inl e \<Rightarrow> Inl e
                  | Inr tg \<Rightarrow> Inr (DICDIR env, tg))) of
        Inl e \<Rightarrow> Inl e
      | Inr (p, tg) \<Rightarrow>
         (case read_json env (installpath env @ ustr ''/data/tagset/mecab.json'') of
            Inl e \<Rightarrow> Inl e
          | Inr ts \<Rightarrow> Inr \<lparr>dicpath = p, tagger_of = tg, tagset = ts\<rparr>))"

text \<open>\<^verbatim>\<open>Mecab.__init__\<close>: a \<^verbatim>\<open>RuntimeError\<close> of the body becomes an
  \<^verbatim>\<open>Exception\<close> whose message is formatted with the argument \<^verbatim>\<open>dicpath\<close>.\<close>

definition Mecab_init :: "'ts env \<Rightarrow> str option \<Rightarrow> error + 'ts mecab" where
  "Mecab_init env dicpath_arg =
     (case init_body env dicpath_arg of
        Inl RuntimeError \<Rightarrow> Inl (Exception (message (percent_s dicpath_arg)))
      | Inl e \<Rightarrow> Inl e
      | Inr m \<Rightarrow> Inr m)"

section \<open>Example inputs\<close>

text \<open>The class docstring tags \<^verbatim>\<open>(U+ACF3, 'NNG')\<close>, \<^verbatim>\<open>(U+C778 U+AC00, 'VCP+EF')\<close> and
  \<^verbatim>\<open>('?', 'SF')\<close> at the end of its last example. The lines below are the dump lines
  of mecab-ko-dic for these three entries: surface, tab, and the eight features tag,
  semantic class, final consonant, reading, type, first tag, last tag and original form.
  The second entry is of type \<^verbatim>\<open>Inflect\<close>; its original form is
  \<^verbatim>\<open>U+C774/VCP/*+U+11AB U+AC00/EF/*\<close>.\<close>

definition noun_surface :: str where
  "noun_surface = [44275]"

definition noun_features :: str where
  "noun_features = ustr ''NNG,*,T,'' @ [44275] @ ustr '',*,*,*,*''"

definition inflect_surface :: str where
  "inflect_surface = [51064, 44032]"

definition inflect_features :: str where
  "inflect_features =
     ustr ''VCP+EF,*,F,'' @ [51064, 44032] @ ustr '',Inflect,VCP,EF,'' @
     [51060] @ ustr ''/VCP/*+'' @ [4523, 44032] @ ustr ''/EF/*''"

definition mark_features :: str where
  "mark_features = ustr ''SF,*,*,*,*,*,*,*''"

definition example_dump :: str where
  "example_dump =
     noun_surface @ [TAB] @ noun_features @ [10] @
     inflect_surface @ [TAB] @ inflect_features @ [10] @
     ustr ''?'' @ [TAB] @ mark_features @ [10] @
     ustr ''EOS'' @ [10]"

text \<open>A dump with an empty line before the terminator.\<close>

definition gapped_dump :: str where
  "gapped_dump = noun_surface @ [TAB] @ noun_features @ [10, 10] @ ustr ''EOS'' @ [10]"

text \<open>An entry of type \<^verbatim>\<open>Inflect\<close> whose original form is the dictionary's filler
  \<^verbatim>\<open>*\<close>, and a dump whose only line before the terminator is empty.\<close>

definition bare_features :: str where
  "bare_features = ustr ''VV+EC,*,F,*,Inflect,VV,EC,*''"

definition blank_dump :: str where
  "blank_dump = [10] @ ustr ''EOS'' @ [10]"

text \<open>The phrase of the docstring's entries, and a phrase of two eojeols,
  U+C6B0 U+B9AC and U+B098 U+B77C.\<close>

definition example_phrase :: str where
  "example_phrase = [44275, 51064, 44032] @ ustr ''?''"

definition two_eojeols :: str where
  "two_eojeols = [50864, 47532] @ ustr '' '' @ [45208, 46972]"

text \<open>A tagger that tags its whole input as one noun, and one that finds nothing.\<close>

definition one_noun_tagger :: tagger where
  "one_noun_tagger x = x @ [TAB] @ ustr ''NNG,*,T,*,*,*,*,*'' @ [10] @ ustr ''EOS'' @ [10]"

definition empty_tagger :: tagger where
  "empty_tagger x = ustr ''EOS'' @ [10]"

text \<open>An installation where no dictionary can be loaded: \<^verbatim>\<open>Tagger\<close> raises
  \<^verbatim>\<open>RuntimeError\<close> whatever its arguments.\<close>

definition no_dictionary_env :: "unit env" where
  "no_dictionary_env =
     \<lparr>Tagger = (\<lambda>args. Inl RuntimeError),
      DICDIR = ustr ''/usr/lib/mecab/dic/mecab-ko-dic'',
      installpath = ustr ''/usr/lib/python3/site-packages/konlpy'',
      read_json = (\<lambda>path. Inr ())\<rparr>"

section \<open>Properties of the string operations\<close>

lemma split_on_nonempty: "split_on sep xs \<noteq> []"
  by (induction xs) (auto split: list.splits)

lemma length_split_on: "length (split_on sep xs) = Suc (count_list xs sep)"
  by (induction xs) (auto split: list.splits)

lemma split_on_has_second: "1 < length (split_on sep xs) \<longleftrightarrow> sep \<in> set xs"
  using count_list_0_iff [of xs sep] by (auto simp: length_split_on)

lemma split1_at: "sep \<notin> set s \<Longrightarrow> split1 sep (s @ sep # t) = [s, t]"
  by (induction s) (auto simp: split1_def)

lemma split1_none: "sep \<notin> set xs \<Longrightarrow> split1 sep xs = [xs]"
  by (simp add: split1_def)

lemma split_ws_unfold:
  "split_ws s =
     (if dropWhile is_space s = [] then []
      else takeWhile (\<lambda>c. \<not> is_space c) (dropWhile is_space s) #
           split_ws (dropWhile (\<lambda>c. \<not> is_space c) (dropWhile is_space s)))"
  by (rule trans [OF split_ws.simps]) (simp only: Let_def)

lemma split_ws_Nil: "split_ws [] = []"
  by (rule trans [OF split_ws_unfold]) simp

lemma split_ws_space: "is_space c \<Longrightarrow> split_ws (c # cs) = split_ws cs"
  by (rule trans [OF split_ws_unfold], rule trans [OF _ split_ws_unfold [symmetric]]) simp

lemma split_ws_word:
  "\<not> is_space c \<Longrightarrow>
   split_ws (c # cs) =
     (c # takeWhile (\<lambda>c. \<not> is_space c) cs) # split_ws (dropWhile (\<lambda>c. \<not> is_space c) cs)"
  by (rule trans [OF split_ws_unfold]) simp


lemma split_ws_words: "w \<in> set (split_ws x) \<Longrightarrow> w \<noteq> [] \<and> (\<forall>c \<in> set w. \<not> is_space c)"
proof (induction x rule: split_ws.induct)
  case (1 s)
  define s' where "s' = dropWhile is_space s"
  show ?case
  proof (cases "s' = []")
    case True
    then have "split_ws s = []"
      unfolding s'_def by (rule_tac trans [OF split_ws_unfold]) simp
    then show ?thesis
      using "1.prems" by simp
  next
    case False
    then have hd: "\<not> is_space (hd s')"
      unfolding s'_def using hd_dropWhile by metis
    have "split_ws s = takeWhile (\<lambda>c. \<not> is_space c) s' # split_ws (dropWhile (\<lambda>c. \<not> is_space c) s')"
      using False unfolding s'_def by (rule_tac trans [OF split_ws_unfold]) simp
    with "1.prems"
    have "w = takeWhile (\<lambda>c. \<not> is_space c) s' \<or> w \<in> set (split_ws (dropWhile (\<lambda>c. \<not> is_space c) s'))"
      by simp
    then show ?thesis
    proof
      assume w: "w = takeWhile (\<lambda>c. \<not> is_space c) s'"
      have "w \<noteq> []"
        using False hd unfolding w by (cases s') simp_all
      moreover have "\<forall>c \<in> set w. \<not> is_space c"
        unfolding w using set_takeWhileD by fastforce
      ultimately show ?thesis by simp
    next
      assume "w \<in> set (split_ws (dropWhile (\<lambda>c. \<not> is_space c) s'))"
      then show ?thesis
        by (rule "1.IH" [OF s'_def False])
    qed
  qed
qed

lemma concat_split_ws: "concat (split_ws x) = filter (\<lambda>c. \<not> is_space c) x"
proof (induction x rule: split_ws.induct)
  case (1 s)
  define s' where "s' = dropWhile is_space s"
  have fs: "filter (\<lambda>c. \<not> is_space c) s = filter (\<lambda>c. \<not> is_space c) s'"
    unfolding s'_def by (induction s) simp_all
  show ?case
  proof (cases "s' = []")
    case True
    then have "split_ws s = []"
      unfolding s'_def by (rule_tac trans [OF split_ws_unfold]) simp
    then show ?thesis
      using fs True by simp
  next
    case False
    have "split_ws s = takeWhile (\<lambda>c. \<not> is_space c) s' # split_ws (dropWhile (\<lambda>c. \<not> is_space c) s')"
      using False unfolding s'_def by (rule_tac trans [OF split_ws_unfold]) simp
    then have "concat (split_ws s) =
        takeWhile (\<lambda>c. \<not> is_space c) s' @ concat (split_ws (dropWhile (\<lambda>c. \<not> is_space c) s'))"
      by simp
    also have "\<dots> = takeWhile (\<lambda>c. \<not> is_space c) s' @
        filter (\<lambda>c. \<not> is_space c) (dropWhile (\<lambda>c. \<not> is_space c) s')"
      using "1.IH" [OF s'_def False] by simp
    also have "\<dots> = filter (\<lambda>c. \<not> is_space c) (takeWhile (\<lambda>c. \<not> is_space c) s') @
        filter (\<lambda>c. \<not> is_space c) (dropWhile (\<lambda>c. \<not> is_space c) s')"
    proof -
      have "filter (\<lambda>c. \<not> is_space c) (takeWhile (\<lambda>c. \<not> is_space c) s') =
          takeWhile (\<lambda>c. \<not> is_space c) s'"
        by (rule filter_True) (auto dest: set_takeWhileD)
      then show ?thesis by simp
    qed
    also have "\<dots> = filter (\<lambda>c. \<not> is_space c) s'"
      by (metis filter_append takeWhile_dropWhile_id)
    finally show ?thesis using fs by simp
  qed
qed

section \<open>Properties of the formatter's loops\<close>

lemma expand_eq:
  "expand res toks join =
     (if \<forall>tok \<in> set toks. 1 < length tok
      then Inr (res @ map (\<lambda>tok. if join then Joined (tok ! 0 @ [SLASH] @ tok ! 1)
                                   else Pair (tok ! 0) (tok ! 1)) toks)
      else Inl IndexError)"
  by (induction toks arbitrary: res) (auto simp: index_def)

lemma split_malformed:
  "elem = [] \<or> TAB \<notin> set elem \<Longrightarrow> split elem join si = Inr [placeholder]"
  by (auto simp: split_def split1_none)

lemma split_line:
  assumes "TAB \<notin> set s"
  shows "split (s @ TAB # t) join si =
     (if si \<and> length (split_on COMMA t) \<le> 4 then Inl IndexError
      else if si \<and> split_on COMMA t ! 4 = ustr ''Inflect'' then
        (if length (split_on COMMA t) \<le> 7 then Inl IndexError
         else expand [] (map (split_on SLASH) (split_on PLUS (split_on COMMA t ! 7))) join)
      else Inr [if join then Joined (s @ [SLASH] @ split_on COMMA t ! 0)
                else Pair s (split_on COMMA t ! 0)])"
proof -
  have "0 < length (split_on COMMA t)"
    using split_on_nonempty [of COMMA t] by simp
  then show ?thesis
    using assms by (simp add: split_def split1_at index_def Let_def)
qed

lemma extend_lines_append:
  "extend_lines res (xs @ ys) j si =
     (case extend_lines res xs j si of Inl e \<Rightarrow> Inl e | Inr a \<Rightarrow> extend_lines a ys j si)"
  by (induction xs arbitrary: res) (auto split: sum.splits)

lemma extend_lines_acc:
  "extend_lines res elems j si =
     (case extend_lines [] elems j si of Inl e \<Rightarrow> Inl e | Inr r \<Rightarrow> Inr (res @ r))"
proof (induction elems arbitrary: res)
  case Nil
  show ?case by simp
next
  case (Cons elem elems)
  show ?case
  proof (cases "split elem j si")
    case (Inl e)
    then show ?thesis by simp
  next
    case (Inr m)
    show ?thesis
      using Cons.IH [of "res @ m"] Cons.IH [of m] Inr
      by (simp split: sum.splits)
  qed
qed

lemma first_of_lines_append:
  "first_of_lines (xs @ ys) j =
     (case first_of_lines xs j of
        Inl e \<Rightarrow> Inl e
      | Inr a \<Rightarrow> (case first_of_lines ys j of Inl e \<Rightarrow> Inl e | Inr b \<Rightarrow> Inr (a @ b)))"
  by (induction xs) (auto split: sum.splits)

lemma parse_lines_append:
  "parse_lines (xs @ ys) j si =
     (case parse_lines xs j si of
        Inl e \<Rightarrow> Inl e
      | Inr a \<Rightarrow> (case parse_lines ys j si of Inl e \<Rightarrow> Inl e | Inr b \<Rightarrow> Inr (a @ b)))"
proof (cases si)
  case True
  show ?thesis
  proof (cases "extend_lines [] xs j si")
    case (Inl e)
    then show ?thesis
      by (simp add: parse_lines_def True extend_lines_append)
  next
    case (Inr a)
    then show ?thesis
      using extend_lines_acc [of a ys j si]
      by (simp add: parse_lines_def True extend_lines_append)
  qed
next
  case False
  then show ?thesis
    by (simp add: parse_lines_def first_of_lines_append split: sum.splits)
qed

lemma parse_lines_malformed:
  "elem = [] \<or> TAB \<notin> set elem \<Longrightarrow> parse_lines [elem] j si = Inr [placeholder]"
  by (cases si) (simp_all add: parse_lines_def split_malformed index_def)


lemma split_default_pair: "\<exists>s t. split elem False False = Inr [Pair s t]"
  using split_on_nonempty [of COMMA "split1 TAB elem ! 1"]
  by (auto simp: split_def Let_def index_def placeholder_def)

lemma split_default_single: "\<exists>tok. split elem j False = Inr [tok]"
  using split_on_nonempty [of COMMA "split1 TAB elem ! 1"]
  by (auto simp: split_def Let_def index_def)

lemma first_of_lines_total:
  "\<exists>toks. length toks = length elems \<and> first_of_lines elems j = Inr toks"
proof (induction elems)
  case Nil
  show ?case by simp
next
  case (Cons elem elems)
  obtain tok where "split elem j False = Inr [tok]"
    using split_default_single by blast
  moreover obtain toks where "length toks = length elems" "first_of_lines elems j = Inr toks"
    using Cons.IH by blast
  ultimately show ?case by (simp add: index_def)
qed

lemma first_of_lines_pairs:
  "\<exists>ps. first_of_lines elems False = Inr (map (\<lambda>(s, t). Pair s t) ps)"
proof (induction elems)
  case Nil
  show ?case by simp
next
  case (Cons elem elems)
  obtain s t where "split elem False False = Inr [Pair s t]"
    using split_default_pair by blast
  moreover obtain ps where "first_of_lines elems False = Inr (map (\<lambda>(s, t). Pair s t) ps)"
    using Cons.IH by blast
  ultimately have "first_of_lines (elem # elems) False = Inr (map (\<lambda>(s, t). Pair s t) ((s, t) # ps))"
    by (simp add: index_def)
  then show ?case by blast
qed

lemma surfaces_pairs: "surfaces (map (\<lambda>(s, t). Pair s t) ps) = Inr (map fst ps)"
  by (induction ps) auto

lemma noun_surfaces_pairs:
  "noun_surfaces (map (\<lambda>(s, t). Pair s t) ps) =
     Inr (map fst (filter (\<lambda>(s, t). startswith t (ustr ''N'')) ps))"
  by (induction ps) auto

lemma pos_default_pairs:
  "\<exists>ps. pos_flat tagger (PyStr x) False False = Inr (map (\<lambda>(s, t). Pair s t) ps)"
  using first_of_lines_pairs [of "butlast (splitlines (tagger x))"]
  by (simp add: pos_flat_def validate_phrase_inputs_def parse_def parse_lines_def)

lemma parse_each_eq:
  "parse_each tg es j si = Inr gs \<longleftrightarrow>
     length gs = length es \<and> (\<forall>i < length es. parse (tg (es ! i)) j si = Inr (gs ! i))"
proof (induction es arbitrary: gs)
  case Nil
  show ?case by auto
next
  case (Cons e es)
  show ?case
  proof (cases gs)
    case Nil
    then show ?thesis by (auto split: sum.splits)
  next
    case (Cons g gs')
    then show ?thesis
      using Cons.IH [of gs'] by (auto simp: All_less_Suc2 split: sum.splits)
  qed
qed

lemma split_inflect_line:
  assumes "TAB \<notin> set s" and "7 < length (split_on COMMA t)"
    and "split_on COMMA t ! 4 = ustr ''Inflect''"
  shows "split (s @ TAB # t) join True =
     (if \<forall>tok \<in> set (split_on PLUS (split_on COMMA t ! 7)). SLASH \<in> set tok
      then Inr (map (\<lambda>tok. if join
                             then Joined (split_on SLASH tok ! 0 @ [SLASH] @ split_on SLASH tok ! 1)
                             else Pair (split_on SLASH tok ! 0) (split_on SLASH tok ! 1))
                  (split_on PLUS (split_on COMMA t ! 7)))
      else Inl IndexError)"
proof -
  have "(\<forall>tok \<in> set (map (split_on SLASH) (split_on PLUS (split_on COMMA t ! 7))). 1 < length tok)
      \<longleftrightarrow> (\<forall>tok \<in> set (split_on PLUS (split_on COMMA t ! 7)). SLASH \<in> set tok)"
    using split_on_has_second [of SLASH] by auto
  then show ?thesis
    using assms by (simp add: split_line expand_eq comp_def)
qed

lemma parse_lines_all_malformed:
  "\<forall>l \<in> set ls. l = [] \<or> TAB \<notin> set l \<Longrightarrow>
   parse_lines ls j si = Inr (replicate (length ls) placeholder)"
proof (induction ls)
  case Nil
  show ?case by (simp add: parse_lines_def)
next
  case (Cons l ls)
  then have "parse_lines [l] j si = Inr [placeholder]"
    and "parse_lines ls j si = Inr (replicate (length ls) placeholder)"
    by (simp_all add: parse_lines_malformed)
  then show ?case
    using parse_lines_append [of "[l]" ls j si] by simp
qed

lemma parse_default_total:
  "\<exists>toks. parse result j False = Inr toks \<and> length toks = length (splitlines result) - 1"
  using first_of_lines_total [of "butlast (splitlines result)" j]
  by (auto simp: parse_def parse_lines_def)

lemma parse_each_total:
  assumes "\<And>e. \<exists>r. parse (tg e) j si = Inr r"
  shows "\<exists>gs. parse_each tg es j si = Inr gs \<and> length gs = length es"
proof (induction es)
  case Nil
  show ?case by simp
next
  case (Cons e es)
  obtain r where "parse (tg e) j si = Inr r"
    using assms by blast
  moreover obtain gs where "parse_each tg es j si = Inr gs" "length gs = length es"
    using Cons.IH by blast
  ultimately show ?case by simp
qed

section \<open>Properties of the construction\<close>

lemma Mecab_init_default_message:
  "Tagger env None = Inl RuntimeError \<Longrightarrow>
   Mecab_init env None = Inl (Exception (message (ustr ''None'')))"
  by (simp add: Mecab_init_def init_body_def percent_s_def)

lemma Mecab_init_given_message:
  "p \<noteq> [] \<Longrightarrow> Tagger env (Some (ustr ''-d '' @ p)) = Inl RuntimeError \<Longrightarrow>
   Mecab_init env (Some p) = Inl (Exception (message p)) \<and> sublist p (message p)"
proof -
  assume "p \<noteq> []" and "Tagger env (Some (ustr ''-d '' @ p)) = Inl RuntimeError"
  then have "Mecab_init env (Some p) = Inl (Exception (message p))"
    by (simp add: Mecab_init_def init_body_def percent_s_def)
  moreover have "sublist p (message p)"
    unfolding message_def by (metis sublist_appendI append_assoc)
  ultimately show ?thesis by simp
qed

section \<open>Evaluating the examples\<close>

lemmas example_defs =
  noun_surface_def noun_features_def inflect_surface_def inflect_features_def
  mark_features_def example_dump_def gapped_dump_def bare_features_def blank_dump_def ustr_def
  TAB_def COMMA_def PLUS_def SLASH_def

lemma inflect_fields:
  "split_on COMMA inflect_features =
     [ustr ''VCP+EF'', ustr ''*'', ustr ''F'', [51064, 44032], ustr ''Inflect'',
      ustr ''VCP'', ustr ''EF'', [51060] @ ustr ''/VCP/*+'' @ [4523, 44032] @ ustr ''/EF/*'']"
  by (simp add: example_defs)

lemma noun_fields:
  "split_on COMMA noun_features =
     [ustr ''NNG'', ustr ''*'', ustr ''T'', [44275], ustr ''*'', ustr ''*'', ustr ''*'', ustr ''*'']"
  by (simp add: example_defs)

lemma bare_fields:
  "split_on COMMA bare_features =
     [ustr ''VV+EC'', ustr ''*'', ustr ''F'', ustr ''*'', ustr ''Inflect'',
      ustr ''VV'', ustr ''EC'', ustr ''*'']"
  by (simp add: example_defs)

lemma gapped_lines:
  "splitlines gapped_dump = [noun_surface @ TAB # noun_features, [], ustr ''EOS'']"
  by (simp add: example_defs is_linebreak_def)

lemma example_lines:
  "splitlines example_dump =
     [noun_surface @ TAB # noun_features, inflect_surface @ TAB # inflect_features,
      ustr ''?'' @ TAB # mark_features, ustr ''EOS'']"
  by (simp add: example_defs is_linebreak_def)

lemma blank_lines: "splitlines blank_dump = [[], ustr ''EOS'']"
  by (simp add: example_defs is_linebreak_def)

lemma mark_fields:
  "split_on COMMA mark_features =
     [ustr ''SF'', ustr ''*'', ustr ''*'', ustr ''*'', ustr ''*'', ustr ''*'', ustr ''*'', ustr ''*'']"
  by (simp add: example_defs)

lemma parse_example:
  "parse example_dump False False =
     Inr [Pair noun_surface (ustr ''NNG''), Pair inflect_surface (ustr ''VCP+EF''),
          Pair (ustr ''?'') (ustr ''SF'')]"
proof -
  have n1: "TAB \<notin> set noun_surface" and i1: "TAB \<notin> set inflect_surface"
    and m1: "TAB \<notin> set (ustr ''?'')"
    by (simp_all add: example_defs)
  show ?thesis
    by (simp add: parse_def parse_lines_def example_lines index_def
        split_line [OF n1] split_line [OF i1] split_line [OF m1]
        noun_fields inflect_fields mark_fields)
qed

lemma parse_gapped:
  "parse gapped_dump True False =
     Inr [Joined (noun_surface @ [SLASH] @ ustr ''NNG''), Pair [] (ustr ''SY'')]"
proof -
  have n1: "TAB \<notin> set noun_surface"
    by (simp add: example_defs)
  show ?thesis
    by (simp add: parse_def parse_lines_def gapped_lines index_def
        split_line [OF n1] split_malformed noun_fields placeholder_def)
qed

lemma two_eojeols_words: "split_ws two_eojeols = [[50864, 47532], [45208, 46972]]"
  by (simp add: two_eojeols_def ustr_def split_ws_word split_ws_space split_ws_Nil is_space_def)

lemma parse_first_eojeol:
  "parse (one_noun_tagger [50864, 47532]) False False = Inr [Pair [50864, 47532] (ustr ''NNG'')]"
  by (simp add: one_noun_tagger_def parse_def parse_lines_def example_defs is_linebreak_def
      split_def split1_def index_def)

lemma parse_second_eojeol:
  "parse (one_noun_tagger [45208, 46972]) False False = Inr [Pair [45208, 46972] (ustr ''NNG'')]"
  by (simp add: one_noun_tagger_def parse_def parse_lines_def example_defs is_linebreak_def
      split_def split1_def index_def)

lemma pos_example:
  "pos (\<lambda>x. example_dump) (PyStr example_phrase) True False False =
     Inr (Flat [Pair noun_surface (ustr ''NNG''), Pair inflect_surface (ustr ''VCP+EF''),
                Pair (ustr ''?'') (ustr ''SF'')])"
  by (simp add: pos_def pos_flat_def validate_phrase_inputs_def parse_example)

lemma pairs_of_example:
  "map (\<lambda>(s, t). Pair s t) ps = [Pair a b, Pair c d, Pair e f] \<Longrightarrow> ps = [(a, b), (c, d), (e, f)]"
  by (auto simp: map_eq_Cons_conv)

section \<open>The claims\<close>

subsection \<open>C1: what \<^verbatim>\<open>split\<close> emits for a line\<close>

text \<open>
  C1. A line of the tagger is \<^verbatim>\<open>surface TAB features\<close>, the surface holding no tab, with
  the features separated by commas; the claim is about lines that have a feature 4.
  With \<^verbatim>\<open>split_inflect=True\<close>, a line whose feature 4 is \<^verbatim>\<open>Inflect\<close> and that has its
  original form, feature 7, with a \<^verbatim>\<open>/\<close> in each of its \<^verbatim>\<open>+\<close>-separated tokens, is
  rendered as one pair per token, in order: the first and the second \<^verbatim>\<open>/\<close>-separated
  component of the token. A line whose feature 4 is not \<^verbatim>\<open>Inflect\<close> is rendered as the
  single pair of its own surface and tag (feature 0), and with \<^verbatim>\<open>split_inflect=False\<close>
  so is every line. When a token has no \<^verbatim>\<open>/\<close> there is no second component to emit;
  that case is the subject of C10.
\<close>

theorem split_inflect_expansion:
  assumes "TAB \<notin> set s" and "4 < length (split_on COMMA t)"
  shows
    "(split_on COMMA t ! 4 = ustr ''Inflect'' \<longrightarrow>
      7 < length (split_on COMMA t) \<longrightarrow>
      (\<forall>tok \<in> set (split_on PLUS (split_on COMMA t ! 7)). SLASH \<in> set tok) \<longrightarrow>
        split (s @ TAB # t) False True =
          Inr (map (\<lambda>tok. Pair (split_on SLASH tok ! 0) (split_on SLASH tok ! 1))
                 (split_on PLUS (split_on COMMA t ! 7)))) \<and>
     (split_on COMMA t ! 4 \<noteq> ustr ''Inflect'' \<longrightarrow>
        split (s @ TAB # t) False True = Inr [Pair s (split_on COMMA t ! 0)]) \<and>
     split (s @ TAB # t) False False = Inr [Pair s (split_on COMMA t ! 0)]"
proof -
  have inflected:
    "split (s @ TAB # t) False True =
       Inr (map (\<lambda>tok. Pair (split_on SLASH tok ! 0) (split_on SLASH tok ! 1))
              (split_on PLUS (split_on COMMA t ! 7)))"
    if ty: "split_on COMMA t ! 4 = ustr ''Inflect''"
      and len: "7 < length (split_on COMMA t)"
      and tags: "\<forall>tok \<in> set (split_on PLUS (split_on COMMA t ! 7)). SLASH \<in> set tok"
  proof -
    have "\<forall>tok \<in> set (map (split_on SLASH) (split_on PLUS (split_on COMMA t ! 7))). 1 < length tok"
      using tags split_on_has_second [of SLASH] by auto
    then have "expand [] (map (split_on SLASH) (split_on PLUS (split_on COMMA t ! 7))) False =
        Inr (map (\<lambda>tok. Pair (tok ! 0) (tok ! 1))
               (map (split_on SLASH) (split_on PLUS (split_on COMMA t ! 7))))"
      by (simp add: expand_eq)
    then show ?thesis
      using assms ty len by (simp add: split_line comp_def)
  qed
  have plain: "split (s @ TAB # t) False True = Inr [Pair s (split_on COMMA t ! 0)]"
    if "split_on COMMA t ! 4 \<noteq> ustr ''Inflect''"
    using assms that by (simp add: split_line)
  have direct: "split (s @ TAB # t) False False = Inr [Pair s (split_on COMMA t ! 0)]"
    using assms by (simp add: split_line)
  show ?thesis
    using inflected plain direct by blast
qed

theorem split_inflect_expansion_witness:
  "split (inflect_surface @ TAB # inflect_features) False True =
     Inr [Pair [51060] (ustr ''VCP''), Pair [4523, 44032] (ustr ''EF'')] \<and>
   split (noun_surface @ TAB # noun_features) False True = Inr [Pair [44275] (ustr ''NNG'')] \<and>
   split (inflect_surface @ TAB # inflect_features) False False =
     Inr [Pair [51064, 44032] (ustr ''VCP+EF'')]"
proof -
  have i1: "TAB \<notin> set inflect_surface" and n1: "TAB \<notin> set noun_surface"
    by (simp_all add: example_defs)
  have i2: "4 < length (split_on COMMA inflect_features)"
    and n2: "4 < length (split_on COMMA noun_features)"
    by (simp_all add: inflect_fields noun_fields)
  show ?thesis
    using split_inflect_expansion [OF i1 i2] split_inflect_expansion [OF n1 n2]
    by (simp add: inflect_fields noun_fields) (simp add: example_defs)
qed

subsection \<open>C2: the surfaces of an expansion\<close>

text \<open>
  C2 as stated fails. For the docstring's entry of type \<^verbatim>\<open>Inflect\<close>, whose surface is
  U+C778 U+AC00, \<^verbatim>\<open>split_inflect=True\<close> gives the pairs (U+C774, VCP) and
  (U+11AB U+AC00, EF): their surfaces concatenate to U+C774 U+11AB U+AC00, which is not
  the surface that \<^verbatim>\<open>split_inflect=False\<close> emits.
\<close>

theorem surface_not_preserved:
  "split (inflect_surface @ TAB # inflect_features) False True =
     Inr [Pair [51060] (ustr ''VCP''), Pair [4523, 44032] (ustr ''EF'')] \<and>
   surfaces [Pair [51060] (ustr ''VCP''), Pair [4523, 44032] (ustr ''EF'')] =
     Inr [[51060], [4523, 44032]] \<and>
   split (inflect_surface @ TAB # inflect_features) False False =
     Inr [Pair [51064, 44032] (ustr ''VCP+EF'')] \<and>
   concat [[51060], [4523, 44032]] \<noteq> [51064, 44032 :: codepoint]"
proof -
  have i1: "TAB \<notin> set inflect_surface"
    by (simp add: example_defs)
  have "split (inflect_surface @ TAB # inflect_features) False True =
      Inr [Pair [51060] (ustr ''VCP''), Pair [4523, 44032] (ustr ''EF'')]"
    by (simp add: split_inflect_line [OF i1] inflect_fields) (simp add: example_defs)
  moreover have "split (inflect_surface @ TAB # inflect_features) False False =
      Inr [Pair [51064, 44032] (ustr ''VCP+EF'')]"
    by (simp add: split_line [OF i1] inflect_fields) (simp add: example_defs)
  ultimately show ?thesis by simp
qed

text \<open>
  C2, amended. For an inflected line whose expansion succeeds, the surfaces of the pairs
  emitted with \<^verbatim>\<open>split_inflect=True\<close> concatenate to the concatenation of the first
  \<^verbatim>\<open>/\<close>-separated components of the \<^verbatim>\<open>+\<close>-separated tokens of the line's original
  form, feature 7, while \<^verbatim>\<open>split_inflect=False\<close> emits the line's own surface, the text
  before the tab. The two agree when the original form spells the surface; the formatter
  never compares them.
\<close>

theorem expansion_spells_original:
  assumes "TAB \<notin> set s" and "7 < length (split_on COMMA t)"
    and "split_on COMMA t ! 4 = ustr ''Inflect''"
    and "\<forall>tok \<in> set (split_on PLUS (split_on COMMA t ! 7)). SLASH \<in> set tok"
  shows "\<exists>toks subs.
     split (s @ TAB # t) False True = Inr toks \<and>
     surfaces toks = Inr subs \<and>
     concat subs =
       concat (map (\<lambda>tok. split_on SLASH tok ! 0) (split_on PLUS (split_on COMMA t ! 7))) \<and>
     split (s @ TAB # t) False False = Inr [Pair s (split_on COMMA t ! 0)]"
proof -
  let ?tokens = "split_on PLUS (split_on COMMA t ! 7)"
  let ?ps = "map (\<lambda>tok. (split_on SLASH tok ! 0, split_on SLASH tok ! 1)) ?tokens"
  have "split (s @ TAB # t) False True = Inr (map (\<lambda>(a, b). Pair a b) ?ps)"
    using assms by (simp add: split_inflect_line comp_def)
  moreover have "surfaces (map (\<lambda>(a, b). Pair a b) ?ps) = Inr (map fst ?ps)"
    by (rule surfaces_pairs)
  moreover have "concat (map fst ?ps) = concat (map (\<lambda>tok. split_on SLASH tok ! 0) ?tokens)"
    by (simp add: comp_def)
  moreover have "split (s @ TAB # t) False False = Inr [Pair s (split_on COMMA t ! 0)]"
    using assms by (simp add: split_line)
  ultimately show ?thesis by blast
qed

theorem expansion_spells_original_witness:
  "\<exists>toks subs.
     split (inflect_surface @ TAB # inflect_features) False True = Inr toks \<and>
     surfaces toks = Inr subs \<and>
     concat subs = [51060, 4523, 44032] \<and>
     split (inflect_surface @ TAB # inflect_features) False False =
       Inr [Pair inflect_surface (ustr ''VCP+EF'')]"
proof -
  have i1: "TAB \<notin> set inflect_surface"
    by (simp add: example_defs)
  have i2: "7 < length (split_on COMMA inflect_features)"
    and i3: "split_on COMMA inflect_features ! 4 = ustr ''Inflect''"
    by (simp_all add: inflect_fields)
  have i4: "\<forall>tok \<in> set (split_on PLUS (split_on COMMA inflect_features ! 7)). SLASH \<in> set tok"
    by (simp add: inflect_fields) (simp add: example_defs)
  have stems: "concat (map (\<lambda>tok. split_on SLASH tok ! 0)
      (split_on PLUS (split_on COMMA inflect_features ! 7))) = [51060, 4523, 44032]"
    by (simp add: inflect_fields) (simp add: example_defs)
  show ?thesis
    using expansion_spells_original [OF i1 i2 i3 i4]
    by (simp add: stems) (simp add: inflect_fields)
qed

subsection \<open>C3: malformed lines\<close>

text \<open>
  C3. A line that is empty or holds no tab is rendered by \<^verbatim>\<open>split\<close> as the one-element
  list of the placeholder \<^verbatim>\<open>('', 'SY')\<close>, whatever the flags. In \<^verbatim>\<open>parse\<close>, whose
  \<^verbatim>\<open>[:-1]\<close> first takes the terminator line off the dump, such a line among the
  remaining lines contributes exactly the placeholder, at its position between the
  tokens of the lines before it and of the lines after it, and raises nothing of its
  own; a dump whose lines are all malformed gives one placeholder per line; and with
  \<^verbatim>\<open>split_inflect=False\<close> the call never fails and returns one token per line.
\<close>

theorem malformed_line_placeholder:
  assumes "elem = [] \<or> TAB \<notin> set elem"
  shows
    "split elem join split_inflect = Inr [Pair [] (ustr ''SY'')] \<and>
     (splitlines result = before @ elem # after @ [terminator] \<longrightarrow>
        parse result join split_inflect =
          (case parse_lines before join split_inflect of
             Inl e \<Rightarrow> Inl e
           | Inr a \<Rightarrow>
              (case parse_lines after join split_inflect of
                 Inl e \<Rightarrow> Inl e
               | Inr b \<Rightarrow> Inr (a @ Pair [] (ustr ''SY'') # b)))) \<and>
     ((\<forall>l \<in> set (butlast (splitlines result)). l = [] \<or> TAB \<notin> set l) \<longrightarrow>
        parse result join split_inflect =
          Inr (replicate (length (splitlines result) - 1) (Pair [] (ustr ''SY'')))) \<and>
     (\<exists>toks. parse result join False = Inr toks \<and>
        length toks = length (splitlines result) - 1)"
proof -
  have one: "split elem join split_inflect = Inr [Pair [] (ustr ''SY'')]"
    using assms split_malformed [of elem join split_inflect] by (simp add: placeholder_def)
  have line: "parse_lines [elem] join split_inflect = Inr [placeholder]"
    using assms by (rule parse_lines_malformed)
  have among: "parse result join split_inflect =
      (case parse_lines before join split_inflect of
         Inl e \<Rightarrow> Inl e
       | Inr a \<Rightarrow>
          (case parse_lines after join split_inflect of
             Inl e \<Rightarrow> Inl e
           | Inr b \<Rightarrow> Inr (a @ Pair [] (ustr ''SY'') # b)))"
    if lines: "splitlines result = before @ elem # after @ [terminator]"
  proof -
    have rest: "parse_lines (elem # after) join split_inflect =
        (case parse_lines after join split_inflect of
           Inl e \<Rightarrow> Inl e
         | Inr b \<Rightarrow> Inr (placeholder # b))"
      using parse_lines_append [of "[elem]" after join split_inflect] line
      by (simp split: sum.splits)
    have "butlast (splitlines result) = before @ elem # after"
      using lines by (simp add: butlast_append)
    then have "parse result join split_inflect =
        parse_lines (before @ elem # after) join split_inflect"
      by (simp add: parse_def)
    also have "\<dots> =
        (case parse_lines before join split_inflect of
           Inl e \<Rightarrow> Inl e
         | Inr a \<Rightarrow>
            (case parse_lines after join split_inflect of
               Inl e \<Rightarrow> Inl e
             | Inr b \<Rightarrow> Inr (a @ placeholder # b)))"
      by (simp add: parse_lines_append [of before] rest split: sum.splits)
    finally show ?thesis unfolding placeholder_def .
  qed
  have every: "parse result join split_inflect =
      Inr (replicate (length (splitlines result) - 1) (Pair [] (ustr ''SY'')))"
    if "\<forall>l \<in> set (butlast (splitlines result)). l = [] \<or> TAB \<notin> set l"
    using parse_lines_all_malformed [OF that, of join split_inflect]
    by (simp add: parse_def placeholder_def)
  show ?thesis
    using one among every parse_default_total [of result join] by blast
qed

theorem malformed_line_placeholder_witness:
  "split [] False True = Inr [Pair [] (ustr ''SY'')] \<and>
   parse gapped_dump False True = Inr [Pair noun_surface (ustr ''NNG''), Pair [] (ustr ''SY'')] \<and>
   parse blank_dump True True = Inr [Pair [] (ustr ''SY'')]"
proof -
  have n1: "TAB \<notin> set noun_surface"
    by (simp add: example_defs)
  have before: "parse_lines [noun_surface @ TAB # noun_features] False True =
      Inr [Pair noun_surface (ustr ''NNG'')]"
    by (simp add: parse_lines_def split_line [OF n1] noun_fields) (simp add: example_defs)
  have after: "parse_lines [] False True = Inr []"
    by (simp add: parse_lines_def)
  have lines: "splitlines gapped_dump = [noun_surface @ TAB # noun_features] @ [] # [] @ [ustr ''EOS'']"
    by (simp add: gapped_lines)
  have blank: "\<forall>l \<in> set (butlast (splitlines blank_dump)). l = [] \<or> TAB \<notin> set l"
    by (simp add: blank_lines)
  have empty: "[] = [] \<or> TAB \<notin> set ([] :: str)"
    by simp
  show ?thesis
    using malformed_line_placeholder [OF empty, of False True gapped_dump
        "[noun_surface @ TAB # noun_features]" "[]" "ustr ''EOS''"]
      malformed_line_placeholder [OF empty, of True True blank_dump]
      lines blank
    by (simp add: before after blank_lines)
qed

subsection \<open>C4: \<^verbatim>\<open>morphs\<close>\<close>

text \<open>
  C4. For every text phrase and every tagger, \<^verbatim>\<open>pos\<close> with its defaults returns a flat
  list of pairs, and \<^verbatim>\<open>morphs\<close> returns the first components of these pairs, in the
  same order: unpacking an element never fails.
\<close>

theorem morphs_projects_pos:
  "\<exists>ps. pos tagger (PyStr x) True False False = Inr (Flat (map (\<lambda>(s, t). Pair s t) ps)) \<and>
        morphs tagger (PyStr x) = Inr (map fst ps)"
proof -
  obtain ps where ps: "pos_flat tagger (PyStr x) False False = Inr (map (\<lambda>(s, t). Pair s t) ps)"
    using pos_default_pairs by blast
  then have "pos tagger (PyStr x) True False False = Inr (Flat (map (\<lambda>(s, t). Pair s t) ps))"
    by (simp add: pos_def)
  moreover have "morphs tagger (PyStr x) = Inr (map fst ps)"
    using ps by (simp add: morphs_def surfaces_pairs)
  ultimately show ?thesis by blast
qed

theorem morphs_projects_pos_witness:
  "pos (\<lambda>x. example_dump) (PyStr example_phrase) True False False =
     Inr (Flat [Pair noun_surface (ustr ''NNG''), Pair inflect_surface (ustr ''VCP+EF''),
                Pair (ustr ''?'') (ustr ''SF'')]) \<and>
   morphs (\<lambda>x. example_dump) (PyStr example_phrase) =
     Inr [noun_surface, inflect_surface, ustr ''?'']"
proof -
  obtain ps where
    "pos (\<lambda>x. example_dump) (PyStr example_phrase) True False False =
       Inr (Flat (map (\<lambda>(s, t). Pair s t) ps))"
    and m: "morphs (\<lambda>x. example_dump) (PyStr example_phrase) = Inr (map fst ps)"
    using morphs_projects_pos [of "\<lambda>x. example_dump" example_phrase] by blast
  then have "ps = [(noun_surface, ustr ''NNG''), (inflect_surface, ustr ''VCP+EF''),
      (ustr ''?'', ustr ''SF'')]"
    by (simp add: pos_example pairs_of_example)
  then show ?thesis
    using m by (simp add: pos_example)
qed

subsection \<open>C5: \<^verbatim>\<open>nouns\<close>\<close>

text \<open>
  C5. For every text phrase and every tagger, \<^verbatim>\<open>nouns\<close> returns the surfaces of
  exactly those pairs of \<^verbatim>\<open>pos\<close> (with its defaults) whose tag starts with \<^verbatim>\<open>N\<close>,
  in the order of \<^verbatim>\<open>pos\<close>; this list is a subsequence of what \<^verbatim>\<open>morphs\<close> returns.
\<close>

theorem nouns_filters_morphs:
  "\<exists>ps. pos tagger (PyStr x) True False False = Inr (Flat (map (\<lambda>(s, t). Pair s t) ps)) \<and>
        morphs tagger (PyStr x) = Inr (map fst ps) \<and>
        nouns tagger (PyStr x) =
          Inr (map fst (filter (\<lambda>(s, t). startswith t (ustr ''N'')) ps)) \<and>
        subseq (map fst (filter (\<lambda>(s, t). startswith t (ustr ''N'')) ps)) (map fst ps)"
proof -
  obtain ps where ps: "pos_flat tagger (PyStr x) False False = Inr (map (\<lambda>(s, t). Pair s t) ps)"
    using pos_default_pairs by blast
  then have "pos tagger (PyStr x) True False False = Inr (Flat (map (\<lambda>(s, t). Pair s t) ps))"
    by (simp add: pos_def)
  moreover have "morphs tagger (PyStr x) = Inr (map fst ps)"
    using ps by (simp add: morphs_def surfaces_pairs)
  moreover have "nouns tagger (PyStr x) =
      Inr (map fst (filter (\<lambda>(s, t). startswith t (ustr ''N'')) ps))"
    using ps by (simp add: nouns_def noun_surfaces_pairs)
  moreover have "subseq (map fst (filter (\<lambda>(s, t). startswith t (ustr ''N'')) ps)) (map fst ps)"
    by (rule subseq_map) simp
  ultimately show ?thesis by blast
qed

theorem nouns_filters_morphs_witness:
  "morphs (\<lambda>x. example_dump) (PyStr example_phrase) =
     Inr [noun_surface, inflect_surface, ustr ''?''] \<and>
   nouns (\<lambda>x. example_dump) (PyStr example_phrase) = Inr [noun_surface]"
proof -
  obtain ps where
    "pos (\<lambda>x. example_dump) (PyStr example_phrase) True False False =
       Inr (Flat (map (\<lambda>(s, t). Pair s t) ps))"
    and m: "morphs (\<lambda>x. example_dump) (PyStr example_phrase) = Inr (map fst ps)"
    and n: "nouns (\<lambda>x. example_dump) (PyStr example_phrase) =
       Inr (map fst (filter (\<lambda>(s, t). startswith t (ustr ''N'')) ps))"
    using nouns_filters_morphs [of "\<lambda>x. example_dump" example_phrase] by blast
  then have "ps = [(noun_surface, ustr ''NNG''), (inflect_surface, ustr ''VCP+EF''),
      (ustr ''?'', ustr ''SF'')]"
    by (simp add: pos_example pairs_of_example)
  then show ?thesis
    using m n by (simp add: startswith_def ustr_def)
qed

subsection \<open>C6: \<^verbatim>\<open>flatten=False\<close>\<close>

text \<open>
  C6. With \<^verbatim>\<open>flatten=False\<close>, \<^verbatim>\<open>pos\<close> returns a result exactly when that result is
  a list with one element per word of \<^verbatim>\<open>phrase.split()\<close>, the element of a word being
  what \<^verbatim>\<open>parse\<close> returns for the tagger's dump of that word alone; with
  \<^verbatim>\<open>split_inflect=False\<close> it always returns. The words are the runs of the phrase
  between white space: no word is empty or holds white space, and together they are the
  characters of the phrase that are not white space, in order. With \<^verbatim>\<open>flatten=True\<close>
  the result is one flat list.
\<close>

theorem pos_eojeols_per_segment:
  "(pos tagger (PyStr x) False join split_inflect = Inr r \<longleftrightarrow>
      (\<exists>groups. r = Eojeols groups \<and> length groups = length (split_ws x) \<and>
         (\<forall>i < length (split_ws x).
            parse (tagger (split_ws x ! i)) join split_inflect = Inr (groups ! i)))) \<and>
   (\<exists>groups. pos tagger (PyStr x) False join False = Inr (Eojeols groups) \<and>
      length groups = length (split_ws x)) \<and>
   (\<forall>w \<in> set (split_ws x). w \<noteq> [] \<and> (\<forall>c \<in> set w. \<not> is_space c)) \<and>
   concat (split_ws x) = filter (\<lambda>c. \<not> is_space c) x \<and>
   (\<exists>toks. pos tagger (PyStr x) True join False = Inr (Flat toks))"
proof -
  have shape: "pos tagger (PyStr x) False join split_inflect = Inr r \<longleftrightarrow>
      (\<exists>groups. r = Eojeols groups \<and> length groups = length (split_ws x) \<and>
         (\<forall>i < length (split_ws x).
            parse (tagger (split_ws x ! i)) join split_inflect = Inr (groups ! i)))"
  proof -
    have "pos tagger (PyStr x) False join split_inflect = Inr r \<longleftrightarrow>
        (\<exists>groups. parse_each tagger (split_ws x) join split_inflect = Inr groups \<and>
           r = Eojeols groups)"
      by (auto simp: pos_def pos_eojeols_def validate_phrase_inputs_def split: sum.splits)
    then show ?thesis
      unfolding parse_each_eq by blast
  qed
  have "\<And>e. \<exists>r. parse (tagger e) join False = Inr r"
    using parse_default_total by blast
  then have total: "\<exists>groups. pos tagger (PyStr x) False join False = Inr (Eojeols groups) \<and>
      length groups = length (split_ws x)"
    using parse_each_total [of tagger join False "split_ws x"]
    by (auto simp: pos_def pos_eojeols_def validate_phrase_inputs_def)
  have flat: "\<exists>toks. pos tagger (PyStr x) True join False = Inr (Flat toks)"
    using parse_default_total [of "tagger x" join]
    by (auto simp: pos_def pos_flat_def validate_phrase_inputs_def)
  show ?thesis
    using shape total flat split_ws_words [of _ x] concat_split_ws [of x] by blast
qed

theorem pos_eojeols_per_segment_witness:
  "split_ws two_eojeols = [[50864, 47532], [45208, 46972]] \<and>
   pos one_noun_tagger (PyStr two_eojeols) False False False =
     Inr (Eojeols [[Pair [50864, 47532] (ustr ''NNG'')], [Pair [45208, 46972] (ustr ''NNG'')]])"
proof -
  let ?G = "[[Pair [50864, 47532] (ustr ''NNG'')], [Pair [45208, 46972] (ustr ''NNG'')]]"
  have "\<exists>groups. Eojeols ?G = Eojeols groups \<and>
      length groups = length (split_ws two_eojeols) \<and>
      (\<forall>i < length (split_ws two_eojeols).
         parse (one_noun_tagger (split_ws two_eojeols ! i)) False False = Inr (groups ! i))"
    by (rule exI [of _ ?G])
      (simp add: two_eojeols_words All_less_Suc parse_first_eojeol parse_second_eojeol)
  then have "pos one_noun_tagger (PyStr two_eojeols) False False False = Inr (Eojeols ?G)"
    using pos_eojeols_per_segment [THEN conjunct1, of one_noun_tagger two_eojeols False False
        "Eojeols ?G"]
    by (rule_tac iffD2)
  then show ?thesis
    by (simp add: two_eojeols_words)
qed

subsection \<open>C7: the empty phrase, and a phrase that is not text\<close>

text \<open>
  C7. On the empty string, \<^verbatim>\<open>pos\<close> with \<^verbatim>\<open>flatten=True\<close> returns the empty list
  when the tagger's dump of the empty string has no line besides its terminator (MeCab
  writes \<^verbatim>\<open>EOS\<close> and a line feed), and with \<^verbatim>\<open>flatten=False\<close> it returns the empty
  list whatever the tagger writes; no error is raised. A phrase that is not text is
  rejected with the validation error, whatever the tagger and the flags.
\<close>

theorem pos_empty_and_nontext:
  "(length (splitlines (tagger [])) \<le> 1 \<longrightarrow>
      pos tagger (PyStr []) True join split_inflect = Inr (Flat [])) \<and>
   pos tagger (PyStr []) False join split_inflect = Inr (Eojeols []) \<and>
   pos tagger PyNone flatten join split_inflect = Inl ValidationError \<and>
   pos tagger (PyInt n) flatten join split_inflect = Inl ValidationError"
proof -
  have flat: "pos tagger (PyStr []) True join split_inflect = Inr (Flat [])"
    if "length (splitlines (tagger [])) \<le> 1"
  proof -
    have "butlast (splitlines (tagger [])) = []"
      using that by (cases "splitlines (tagger [])") simp_all
    then show ?thesis
      by (simp add: pos_def pos_flat_def validate_phrase_inputs_def parse_def parse_lines_def)
  qed
  have nested: "pos tagger (PyStr []) False join split_inflect = Inr (Eojeols [])"
    by (simp add: pos_def pos_eojeols_def validate_phrase_inputs_def split_ws_Nil)
  have rejected: "pos tagger PyNone flatten join split_inflect = Inl ValidationError"
    "pos tagger (PyInt n) flatten join split_inflect = Inl ValidationError"
    by (simp_all add: pos_def pos_flat_def pos_eojeols_def validate_phrase_inputs_def)
  show ?thesis
    using flat nested rejected by blast
qed

theorem pos_empty_and_nontext_witness:
  "pos empty_tagger (PyStr []) True False False = Inr (Flat []) \<and>
   pos empty_tagger (PyStr []) False False False = Inr (Eojeols []) \<and>
   pos empty_tagger PyNone True False False = Inl ValidationError"
proof -
  have "length (splitlines (empty_tagger [])) \<le> 1"
    by (simp add: empty_tagger_def ustr_def is_linebreak_def)
  then show ?thesis
    using pos_empty_and_nontext [of empty_tagger False False True 0] by simp
qed

subsection \<open>C8: the message of a failed construction\<close>

text \<open>
  C8. Where no dictionary can be loaded, \<^verbatim>\<open>Mecab()\<close> without a path fails with an
  \<^verbatim>\<open>Exception\<close> whose message is formatted with the argument \<^verbatim>\<open>dicpath\<close>, which is
  \<^verbatim>\<open>None\<close>: it reads \<^verbatim>\<open>The MeCab dictionary does not exist at "None"\<close>, and the default
  path \<^verbatim>\<open>mecab_ko_dic.DICDIR\<close>, which the constructor has stored in
  \<^verbatim>\<open>self.dicpath\<close>, does not occur in it. With a path given, the same failure names
  the path.
\<close>

theorem default_path_not_named:
  "Mecab_init no_dictionary_env None = Inl (Exception (message (ustr ''None''))) \<and>
   \<not> sublist (DICDIR no_dictionary_env) (message (ustr ''None'')) \<and>
   Mecab_init no_dictionary_env (Some (ustr ''/opt/dic'')) =
     Inl (Exception (message (ustr ''/opt/dic''))) \<and>
   sublist (ustr ''/opt/dic'') (message (ustr ''/opt/dic''))"
proof -
  have "Mecab_init no_dictionary_env None = Inl (Exception (message (ustr ''None'')))"
    by (rule Mecab_init_default_message) (simp add: no_dictionary_env_def)
  moreover have "\<not> sublist (DICDIR no_dictionary_env) (message (ustr ''None''))"
    by (simp add: no_dictionary_env_def message_def ustr_def sublist_code)
  moreover have "Mecab_init no_dictionary_env (Some (ustr ''/opt/dic'')) =
      Inl (Exception (message (ustr ''/opt/dic''))) \<and>
    sublist (ustr ''/opt/dic'') (message (ustr ''/opt/dic''))"
    by (rule Mecab_init_given_message) (simp_all add: no_dictionary_env_def ustr_def)
  ultimately show ?thesis by simp
qed

subsection \<open>C9: \<^verbatim>\<open>join=True\<close> and malformed lines\<close>

text \<open>
  C9. With \<^verbatim>\<open>join=True\<close>, a line with a tab is rendered as the one string
  \<^verbatim>\<open>surface + '/' + tag\<close>: always with \<^verbatim>\<open>split_inflect=False\<close>, and with
  \<^verbatim>\<open>split_inflect=True\<close> when the line has a feature 4 other than \<^verbatim>\<open>Inflect\<close>. An
  empty or tab-less line is rendered as the pair \<^verbatim>\<open>('', 'SY')\<close> all the same. So the
  result of \<^verbatim>\<open>pos\<close> with \<^verbatim>\<open>join=True\<close> can hold strings and pairs: it does for a
  dump with an empty line.
\<close>

theorem join_mixes_strings_and_pairs:
  "(TAB \<notin> set s \<longrightarrow>
      (split_inflect \<longrightarrow>
         4 < length (split_on COMMA t) \<and> split_on COMMA t ! 4 \<noteq> ustr ''Inflect'') \<longrightarrow>
      split (s @ TAB # t) True split_inflect = Inr [Joined (s @ [SLASH] @ split_on COMMA t ! 0)]) \<and>
   (elem = [] \<or> TAB \<notin> set elem \<longrightarrow>
      split elem True split_inflect = Inr [Pair [] (ustr ''SY'')]) \<and>
   pos (\<lambda>x. gapped_dump) (PyStr noun_surface) True True False =
     Inr (Flat [Joined (noun_surface @ [SLASH] @ ustr ''NNG''), Pair [] (ustr ''SY'')])"
proof -
  have joined: "split (s @ TAB # t) True split_inflect =
      Inr [Joined (s @ [SLASH] @ split_on COMMA t ! 0)]"
    if "TAB \<notin> set s"
      and "split_inflect \<longrightarrow>
         4 < length (split_on COMMA t) \<and> split_on COMMA t ! 4 \<noteq> ustr ''Inflect''"
    using that by (auto simp: split_line)
  have pair: "split elem True split_inflect = Inr [Pair [] (ustr ''SY'')]"
    if "elem = [] \<or> TAB \<notin> set elem"
    using split_malformed [OF that, of True split_inflect] by (simp add: placeholder_def)
  have mixed: "pos (\<lambda>x. gapped_dump) (PyStr noun_surface) True True False =
      Inr (Flat [Joined (noun_surface @ [SLASH] @ ustr ''NNG''), Pair [] (ustr ''SY'')])"
    by (simp add: pos_def pos_flat_def validate_phrase_inputs_def parse_gapped)
  show ?thesis
    using joined pair mixed by blast
qed

theorem join_mixes_strings_and_pairs_witness:
  "split (noun_surface @ TAB # noun_features) True True =
     Inr [Joined (noun_surface @ [SLASH] @ ustr ''NNG'')] \<and>
   split (inflect_surface @ TAB # inflect_features) True False =
     Inr [Joined (inflect_surface @ [SLASH] @ ustr ''VCP+EF'')] \<and>
   split (ustr ''EOS'') True True = Inr [Pair [] (ustr ''SY'')]"
proof -
  have n1: "TAB \<notin> set noun_surface" and i1: "TAB \<notin> set inflect_surface"
    by (simp_all add: example_defs)
  have n2: "True \<longrightarrow> 4 < length (split_on COMMA noun_features) \<and>
      split_on COMMA noun_features ! 4 \<noteq> ustr ''Inflect''"
    by (simp add: noun_fields) (simp add: example_defs)
  have i2: "False \<longrightarrow> 4 < length (split_on COMMA inflect_features) \<and>
      split_on COMMA inflect_features ! 4 \<noteq> ustr ''Inflect''"
    by simp
  have e: "ustr ''EOS'' = [] \<or> TAB \<notin> set (ustr ''EOS'')"
    by (simp add: example_defs)
  show ?thesis
    using join_mixes_strings_and_pairs [of noun_surface True noun_features "ustr ''EOS''"]
      join_mixes_strings_and_pairs [of inflect_surface False inflect_features "ustr ''EOS''"]
      n1 n2 i1 i2 e
    by (simp add: noun_fields inflect_fields)
qed

subsection \<open>C10: when the expansion is total\<close>

text \<open>
  C10. For a line whose feature 4 is \<^verbatim>\<open>Inflect\<close> and that has a feature 7, processed
  with \<^verbatim>\<open>split_inflect=True\<close>: \<^verbatim>\<open>split\<close> returns if and only if every
  \<^verbatim>\<open>+\<close>-separated token of feature 7 holds a \<^verbatim>\<open>/\<close>; it then emits, per token, the
  components 0 and 1 of the token split at \<^verbatim>\<open>/\<close>; and if some token holds no
  \<^verbatim>\<open>/\<close>, reading \<^verbatim>\<open>token[1]\<close> raises \<^verbatim>\<open>IndexError\<close>.
\<close>

theorem inflect_expansion_total_iff:
  assumes "TAB \<notin> set s" and "7 < length (split_on COMMA t)"
    and "split_on COMMA t ! 4 = ustr ''Inflect''"
  shows
    "((\<exists>res. split (s @ TAB # t) join True = Inr res) \<longleftrightarrow>
      (\<forall>tok \<in> set (split_on PLUS (split_on COMMA t ! 7)). SLASH \<in> set tok)) \<and>
     ((\<forall>tok \<in> set (split_on PLUS (split_on COMMA t ! 7)). SLASH \<in> set tok) \<longrightarrow>
        split (s @ TAB # t) join True =
          Inr (map (\<lambda>tok. if join
                          then Joined (split_on SLASH tok ! 0 @ [SLASH] @ split_on SLASH tok ! 1)
                          else Pair (split_on SLASH tok ! 0) (split_on SLASH tok ! 1))
                 (split_on PLUS (split_on COMMA t ! 7)))) \<and>
     ((\<exists>tok \<in> set (split_on PLUS (split_on COMMA t ! 7)). SLASH \<notin> set tok) \<longrightarrow>
        split (s @ TAB # t) join True = Inl IndexError)"
  by (simp add: split_inflect_line [OF assms])

theorem inflect_expansion_total_iff_witness:
  "split (inflect_surface @ TAB # inflect_features) True True =
     Inr [Joined ([51060] @ ustr ''/VCP''), Joined ([4523, 44032] @ ustr ''/EF'')] \<and>
   split (inflect_surface @ TAB # bare_features) False True = Inl IndexError"
proof -
  have i1: "TAB \<notin> set inflect_surface"
    by (simp add: example_defs)
  have i2: "7 < length (split_on COMMA inflect_features)"
    and i3: "split_on COMMA inflect_features ! 4 = ustr ''Inflect''"
    and b2: "7 < length (split_on COMMA bare_features)"
    and b3: "split_on COMMA bare_features ! 4 = ustr ''Inflect''"
    by (simp_all add: inflect_fields bare_fields)
  have i4: "\<forall>tok \<in> set (split_on PLUS (split_on COMMA inflect_features ! 7)). SLASH \<in> set tok"
    by (simp add: inflect_fields) (simp add: example_defs)
  have b4: "\<exists>tok \<in> set (split_on PLUS (split_on COMMA bare_features ! 7)). SLASH \<notin> set tok"
    by (simp add: bare_fields) (simp add: example_defs)
  have "split (inflect_surface @ TAB # inflect_features) True True =
      Inr (map (\<lambda>tok. Joined (split_on SLASH tok ! 0 @ [SLASH] @ split_on SLASH tok ! 1))
             (split_on PLUS (split_on COMMA inflect_features ! 7)))"
    using inflect_expansion_total_iff [OF i1 i2 i3, of True] i4 by simp
  moreover have "split (inflect_surface @ TAB # bare_features) False True = Inl IndexError"
    using inflect_expansion_total_iff [OF i1 b2 b3, of False] b4 by blast
  ultimately show ?thesis
    by (simp add: inflect_fields) (simp add: example_defs)
qed

end
